theory Spec2Isabelle
  imports Main "HOL-Library.Monad_Syntax" "HOL-Library.Multiset"
begin

section \<open>Text as the interpreter sees it\<close>

text \<open>
  The functions of \<^verbatim>\<open>evaluate_agent.py\<close> work on Python \<^verbatim>\<open>str\<close> values. They are
  modelled as \<^typ>\<open>string\<close>; a \<^typ>\<open>char\<close> stands for the code point of the same
  number, so the model covers text whose code points are below 256. In that range the
  character classes of \<^verbatim>\<open>re\<close> and of \<^verbatim>\<open>str\<close> are the finite sets written out below.
\<close>

definition is_digit :: "char \<Rightarrow> bool" where
  \<comment> \<open>\<^verbatim>\<open>\d\<close>: the decimal digits\<close>
  "is_digit c = (c \<in> set ''0123456789'')"

definition is_space :: "char \<Rightarrow> bool" where
  \<comment> \<open>\<^verbatim>\<open>\s\<close> and \<^verbatim>\<open>str.isspace\<close>\<close>
  "is_space c = (c \<in> set [CHR 0x09, CHR 0x0A, CHR 0x0B, CHR 0x0C, CHR 0x0D, CHR 0x1C,
                            CHR 0x1D, CHR 0x1E, CHR 0x1F, CHR '' '', CHR 0x85, CHR 0xA0])"

definition digit_val :: "char \<Rightarrow> int" where
  "digit_val c = int (of_char c) - 48"

definition digits_val :: "string \<Rightarrow> int" where
  \<comment> \<open>the number written by a string of decimal digits\<close>
  "digits_val ds = foldl (\<lambda>a c. 10 * a + digit_val c) 0 ds"

definition int_max_str_digits :: nat where
  \<comment> \<open>\<^verbatim>\<open>sys.int_info.default_max_str_digits\<close>: longer digit strings make \<^verbatim>\<open>int\<close> raise ValueError\<close>
  "int_max_str_digits = 4300"

definition py_int :: "string \<Rightarrow> int option" where
  \<comment> \<open>\<^verbatim>\<open>int(s)\<close> on a string of decimal digits; \<open>None\<close> is the ValueError\<close>
  "py_int ds = (if int_max_str_digits < length ds then None else Some (digits_val ds))"

fun lit :: "string \<Rightarrow> string \<Rightarrow> string option" where
  \<comment> \<open>a literal piece of a pattern, matched at the head of the text; the result is the text left\<close>
  "lit [] s = Some s"
| "lit (p # ps) [] = None"
| "lit (p # ps) (c # cs) = (if p = c then lit ps cs else None)"

fun contains :: "string \<Rightarrow> string \<Rightarrow> bool" where
  \<comment> \<open>\<^verbatim>\<open>sub in s\<close>\<close>
  "contains sub [] = (sub = [])"
| "contains sub (c # cs) = (lit sub (c # cs) \<noteq> None \<or> contains sub cs)"

fun readlines :: "string \<Rightarrow> string list" where
  \<comment> \<open>\<^verbatim>\<open>f.readlines()\<close>: the text cut after each newline, the newline kept\<close>
  "readlines [] = []"
| "readlines (c # cs) =
     (if c = CHR 0x0A then [c] # readlines cs
      else (case readlines cs of [] \<Rightarrow> [[c]] | l # ls \<Rightarrow> (c # l) # ls))"

datatype log_file = Missing | Unreadable | Contents string

text \<open>
  A log path is in one of three states: \<open>Missing\<close> (\<^verbatim>\<open>log_path.exists()\<close> is false),
  \<open>Unreadable\<close> (it exists and opening or reading it raises), or \<open>Contents t\<close>, where
  \<open>t\<close> is the text the file object delivers: the bytes decoded as UTF-8 with undecodable
  bytes dropped, line ends translated to the newline character (the file is opened in
  text mode with the default \<^verbatim>\<open>newline\<close>). \<^verbatim>\<open>f.read()\<close> returns \<open>t\<close> and
  \<^verbatim>\<open>f.readlines()\<close> returns \<^term>\<open>readlines t\<close>.
\<close>

section \<open>Timestamps\<close>

datatype item = D | L char

fun match_items :: "item list \<Rightarrow> string \<Rightarrow> bool" where
  \<comment> \<open>a pattern made of \<^verbatim>\<open>\d\<close> and literal characters, matched at the head of the text\<close>
  "match_items [] s = True"
| "match_items (i # ps) [] = False"
| "match_items (D # ps) (c # cs) = (is_digit c \<and> match_items ps cs)"
| "match_items (L x # ps) (c # cs) = (x = c \<and> match_items ps cs)"

definition ts_pattern :: "item list" where
  \<comment> \<open>\<^verbatim>\<open>^\[(\d{4}-\d{2}-\d{2} \d{2}:\d{2}:\d{2})\]\<close>\<close>
  "ts_pattern =
     [L (CHR ''[''), D, D, D, D, L (CHR ''-''), D, D, L (CHR ''-''), D, D, L (CHR '' ''),
      D, D, L (CHR '':''), D, D, L (CHR '':''), D, D, L (CHR '']'')]"

definition ts_pattern_match :: "string \<Rightarrow> string option" where
  \<comment> \<open>\<^verbatim>\<open>ts_pattern.match(line)\<close>, giving \<^verbatim>\<open>match.group(1)\<close>\<close>
  "ts_pattern_match line =
     (if match_items ts_pattern line then Some (take 19 (drop 1 line)) else None)"

record datetime =
  year :: int
  month :: int
  day :: int
  hour :: int
  minute :: int
  second :: int

definition is_leap :: "int \<Rightarrow> bool" where
  "is_leap y = (y mod 4 = 0 \<and> (y mod 100 \<noteq> 0 \<or> y mod 400 = 0))"

definition days_in_month :: "int \<Rightarrow> int \<Rightarrow> int" where
  "days_in_month y m =
     (if m = 2 then (if is_leap y then 29 else 28)
      else if m \<in> {4, 6, 9, 11} then 30 else 31)"

definition days_before_year :: "int \<Rightarrow> int" where
  "days_before_year y = (y - 1) * 365 + (y - 1) div 4 - (y - 1) div 100 + (y - 1) div 400"

definition days_before_month :: "int \<Rightarrow> int \<Rightarrow> int" where
  "days_before_month y m =
     [0, 31, 59, 90, 120, 151, 181, 212, 243, 273, 304, 334] ! nat (m - 1)
       + (if 2 < m \<and> is_leap y then 1 else 0)"

definition toordinal :: "datetime \<Rightarrow> int" where
  "toordinal t = days_before_year (year t) + days_before_month (year t) (month t) + day t"

definition seconds_between :: "datetime \<Rightarrow> datetime \<Rightarrow> int" where
  \<comment> \<open>\<^verbatim>\<open>(a - b).total_seconds()\<close>, a whole number of seconds\<close>
  "seconds_between a b =
     (toordinal a - toordinal b) * 86400
       + ((hour a * 3600 + minute a * 60 + second a)
          - (hour b * 3600 + minute b * 60 + second b))"

definition strptime :: "string \<Rightarrow> datetime option" where
  \<comment> \<open>\<^verbatim>\<open>datetime.strptime(s, "%Y-%m-%d %H:%M:%S")\<close> on a string that \<open>ts_pattern\<close> let
      through; \<open>None\<close> is the ValueError\<close>
  "strptime s =
     (let y = digits_val (take 4 s);
          mo = digits_val (take 2 (drop 5 s));
          d = digits_val (take 2 (drop 8 s));
          h = digits_val (take 2 (drop 11 s));
          mi = digits_val (take 2 (drop 14 s));
          se = digits_val (take 2 (drop 17 s))
      in if 1 \<le> y \<and> 1 \<le> mo \<and> mo \<le> 12 \<and> 1 \<le> d \<and> d \<le> days_in_month y mo
            \<and> h \<le> 23 \<and> mi \<le> 59 \<and> se \<le> 59
         then Some \<lparr>year = y, month = mo, day = d, hour = h, minute = mi, second = se\<rparr>
         else None)"

definition line_timestamp :: "string \<Rightarrow> datetime option" where
  \<comment> \<open>the timestamp a line begins with, if the pattern matches and the date exists\<close>
  "line_timestamp line =
     (case ts_pattern_match line of None \<Rightarrow> None | Some current_ts_str \<Rightarrow> strptime current_ts_str)"

section \<open>Prompt processing time\<close>

definition marker :: string where
  "marker = ''Prompt processing progress''"

record scan_state =
  in_block :: bool
  block_start_time :: "datetime option"
  last_timestamp :: "datetime option"
  total_duration :: int

definition scan_init :: scan_state where
  "scan_init = \<lparr>in_block = False, block_start_time = None, last_timestamp = None,
                 total_duration = 0\<rparr>"

definition scan_line :: "scan_state \<Rightarrow> string \<Rightarrow> scan_state" where
  \<comment> \<open>one turn of the loop over the lines\<close>
  "scan_line st line =
     (case line_timestamp line of
        None \<Rightarrow> st
      | Some current_ts \<Rightarrow>
          (let st1 = st\<lparr>last_timestamp := Some current_ts\<rparr> in
           if contains marker line then
             (if \<not> in_block st1
              then st1\<lparr>in_block := True, block_start_time := Some current_ts\<rparr>
              else st1)
           else
             (if in_block st1 then
                (case block_start_time st1 of
                   Some b \<Rightarrow>
                     st1\<lparr>total_duration := total_duration st1 + seconds_between current_ts b,
                         in_block := False, block_start_time := None\<rparr>
                 | None \<Rightarrow> st1\<lparr>in_block := False, block_start_time := None\<rparr>)
              else st1)))"

definition close_open_block :: "scan_state \<Rightarrow> int" where
  \<comment> \<open>the statement after the loop, and the value returned\<close>
  "close_open_block st =
     (case (in_block st, block_start_time st, last_timestamp st) of
        (True, Some b, Some l) \<Rightarrow> total_duration st + seconds_between l b
      | _ \<Rightarrow> total_duration st)"

definition get_prompt_processing_time :: "log_file \<Rightarrow> int" where
  "get_prompt_processing_time f =
     (case f of
        Missing \<Rightarrow> 0
      | Unreadable \<Rightarrow> 0
      | Contents t \<Rightarrow> close_open_block (foldl scan_line scan_init (readlines t)))"

text \<open>
  The source accumulates a float; every summand is a whole number of seconds, which a
  float holds exactly, so the model computes in \<^typ>\<open>int\<close>.
\<close>

section \<open>Token usage\<close>

definition skip_ws :: "string \<Rightarrow> string" where
  \<comment> \<open>\<^verbatim>\<open>\s*\<close>, greedy\<close>
  "skip_ws s = dropWhile is_space s"

definition digits1 :: "string \<Rightarrow> (string \<times> string) option" where
  \<comment> \<open>\<^verbatim>\<open>(\d+)\<close>, greedy: the digits and the text left\<close>
  "digits1 s =
     (if takeWhile is_digit s = [] then None
      else Some (takeWhile is_digit s, dropWhile is_digit s))"

definition usage_key :: string where
  \<open>usage_key = ''"usage":''\<close>

definition match_usage :: "string \<Rightarrow> ((string \<times> string \<times> string) \<times> string) option" where
  \<comment> \<open>the compiled \<^verbatim>\<open>pattern\<close>, matched at the head of the text: the three groups and
      the text after the match\<close>
  \<open>match_usage s = do {
     s1 \<leftarrow> lit usage_key s;
     s2 \<leftarrow> lit ''{'' (skip_ws s1);
     s3 \<leftarrow> lit ''"prompt_tokens":'' (skip_ws s2);
     (p, s4) \<leftarrow> digits1 (skip_ws s3);
     s5 \<leftarrow> lit '','' s4;
     s6 \<leftarrow> lit ''"completion_tokens":'' (skip_ws s5);
     (c, s7) \<leftarrow> digits1 (skip_ws s6);
     s8 \<leftarrow> lit '','' s7;
     s9 \<leftarrow> lit ''"total_tokens":'' (skip_ws s8);
     (t, s10) \<leftarrow> digits1 (skip_ws s9);
     s11 \<leftarrow> lit ''}'' (skip_ws s10);
     Some ((p, c, t), s11)
   }\<close>

text \<open>
  The pattern is
  \<^verbatim>\<open>"usage":\s*\{\s*"prompt_tokens":\s*(\d+),\s*"completion_tokens":\s*(\d+),\s*"total_tokens":\s*(\d+)\s*\}\<close>.
  Each \<^verbatim>\<open>\s*\<close> is followed by a character that is no white space and each
  \<^verbatim>\<open>\d+\<close> by one that is no digit, so giving back a character never turns a failed
  match into a successful one: the greedy match is the only one.
\<close>

function findall_usage :: "string \<Rightarrow> (string \<times> string \<times> string) list" where
  \<comment> \<open>\<^verbatim>\<open>pattern.findall(content)\<close>: the matches from left to right, none overlapping\<close>
  "findall_usage [] = []"
| "findall_usage (c # cs) =
     (case match_usage (c # cs) of
        Some (m, rest) \<Rightarrow> m # findall_usage rest
      | None \<Rightarrow> findall_usage cs)"
  by pat_completeness auto
termination
proof (relation "measure length")
  show "wf (measure length)" by simp
next
  fix c :: char and cs x2 x y
  assume m: "match_usage (c # cs) = Some x2" and x2: "(x, y) = x2"
  have lit_len: "length r \<le> length s" if "lit p s = Some r" for p s r
    using that by (induction p s rule: lit.induct) (auto split: if_splits)
  have lit_len1: "length r < length s" if "lit (a # p) s = Some r" for a p s r
    using that lit_len [of p "tl s" r] by (cases s) (auto split: if_splits)
  have ws: "length (skip_ws s) \<le> length s" for s
    unfolding skip_ws_def by (rule length_dropWhile_le)
  have dg: "length r \<le> length s" if "digits1 s = Some (d, r)" for s d r
    using that length_dropWhile_le [of is_digit s] by (auto simp: digits1_def split: if_splits)
  from m x2 obtain s1 s2 s3 p s4 s5 s6 c' s7 s8 s9 t s10 where
    st: \<open>lit usage_key (c # cs) = Some s1\<close>
      \<open>lit ''{'' (skip_ws s1) = Some s2\<close>
      \<open>lit ''"prompt_tokens":'' (skip_ws s2) = Some s3\<close>
      \<open>digits1 (skip_ws s3) = Some (p, s4)\<close>
      \<open>lit '','' s4 = Some s5\<close>
      \<open>lit ''"completion_tokens":'' (skip_ws s5) = Some s6\<close>
      \<open>digits1 (skip_ws s6) = Some (c', s7)\<close>
      \<open>lit '','' s7 = Some s8\<close>
      \<open>lit ''"total_tokens":'' (skip_ws s8) = Some s9\<close>
      \<open>digits1 (skip_ws s9) = Some (t, s10)\<close>
      \<open>lit ''}'' (skip_ws s10) = Some y\<close>
    unfolding match_usage_def by (auto simp: bind_eq_Some_conv simp del: lit.simps)
  have "length y \<le> length (skip_ws s10)" using st(11) lit_len by blast
  also have "\<dots> \<le> length s10" by (rule ws)
  also have "\<dots> \<le> length (skip_ws s9)" using st(10) dg by blast
  also have "\<dots> \<le> length s9" by (rule ws)
  also have "\<dots> \<le> length (skip_ws s8)" using st(9) lit_len by blast
  also have "\<dots> \<le> length s8" by (rule ws)
  also have "\<dots> \<le> length s7" using st(8) lit_len by blast
  also have "\<dots> \<le> length (skip_ws s6)" using st(7) dg by blast
  also have "\<dots> \<le> length s6" by (rule ws)
  also have "\<dots> \<le> length (skip_ws s5)" using st(6) lit_len by blast
  also have "\<dots> \<le> length s5" by (rule ws)
  also have "\<dots> \<le> length s4" using st(5) lit_len by blast
  also have "\<dots> \<le> length (skip_ws s3)" using st(4) dg by blast
  also have "\<dots> \<le> length s3" by (rule ws)
  also have "\<dots> \<le> length (skip_ws s2)" using st(3) lit_len by blast
  also have "\<dots> \<le> length s2" by (rule ws)
  also have "\<dots> \<le> length (skip_ws s1)" using st(2) lit_len by blast
  also have "\<dots> \<le> length s1" by (rule ws)
  also have "\<dots> < length (c # cs)"
    using st(1) lit_len1 [of "hd usage_key" "tl usage_key" "c # cs" s1]
    by (simp add: usage_key_def del: lit.simps)
  finally show "(y, c # cs) \<in> measure length" by simp
next
  fix c :: char and cs
  show "(cs, c # cs) \<in> measure length" by simp
qed

record token_usage =
  prompt_tokens :: int
  completion_tokens :: int
  total_tokens :: int

definition usage_zero :: token_usage where
  "usage_zero = \<lparr>prompt_tokens = 0, completion_tokens = 0, total_tokens = 0\<rparr>"

fun add_matches :: "token_usage \<Rightarrow> (string \<times> string \<times> string) list \<Rightarrow> token_usage" where
  \<comment> \<open>the loop over the matches; when \<^verbatim>\<open>int\<close> raises, the handler ends the loop and the
      sums reached so far are returned\<close>
  "add_matches usage [] = usage"
| "add_matches usage ((p, c, t) # matches) =
     (case py_int p of None \<Rightarrow> usage | Some p_tok \<Rightarrow>
       (case py_int c of None \<Rightarrow> usage | Some c_tok \<Rightarrow>
         (case py_int t of None \<Rightarrow> usage | Some t_tok \<Rightarrow>
            add_matches
              (usage\<lparr>prompt_tokens := prompt_tokens usage + p_tok,
                     completion_tokens := completion_tokens usage + c_tok,
                     total_tokens := total_tokens usage + t_tok\<rparr>)
              matches)))"

definition get_token_usage :: "log_file \<Rightarrow> token_usage" where
  "get_token_usage f =
     (case f of
        Missing \<Rightarrow> usage_zero
      | Unreadable \<Rightarrow> usage_zero
      | Contents content \<Rightarrow> add_matches usage_zero (findall_usage content))"

section \<open>Notions and logs used in the statements\<close>



definition out_of_order_log :: string where
  "out_of_order_log =
     ''[2026-01-18 18:10:46] Prompt processing progress\<newline>[2026-01-18 18:10:43] done\<newline>''"

definition example_log :: string where
  \<open>example_log =
     ''[2026-01-18 18:10:43] Prompt processing progress\<newline>[2026-01-18 18:10:46] done\<newline>{"prompt_tokens":10,"completion_tokens":5,"total_tokens":15}''\<close>

definition example_log_usage :: string where
  \<open>example_log_usage =
     ''[2026-01-18 18:10:43] Prompt processing progress\<newline>[2026-01-18 18:10:46] done\<newline>"usage": {"prompt_tokens":10,"completion_tokens":5,"total_tokens":15}''\<close>

definition bare_usage_log :: string where
  \<open>bare_usage_log = ''"usage":{"prompt_tokens":1,"completion_tokens":2,"total_tokens":3}''\<close>


section \<open>Usage records in a log\<close>

definition unrelated :: "string \<Rightarrow> bool" where
  \<comment> \<open>text in which the key of a usage record does not occur\<close>
  "unrelated g = (\<not> contains usage_key g)"

definition record_values :: "string \<Rightarrow> (int \<times> int \<times> int) option" where
  \<comment> \<open>a well-formed usage record is a text the pattern matches from its first to its last
      character, with numbers \<^verbatim>\<open>int\<close> converts; these are its three values\<close>
  "record_values r =
     (case match_usage r of
        None \<Rightarrow> None
      | Some ((p, c, t), rest) \<Rightarrow>
          if rest \<noteq> [] then None
          else (case py_int p of None \<Rightarrow> None | Some p_tok \<Rightarrow>
                 (case py_int c of None \<Rightarrow> None | Some c_tok \<Rightarrow>
                   (case py_int t of None \<Rightarrow> None | Some t_tok \<Rightarrow>
                      Some (p_tok, c_tok, t_tok)))))"

fun log_of :: "(string \<times> string) list \<Rightarrow> string \<Rightarrow> string" where
  "log_of [] g_end = g_end"
| "log_of ((g, r) # es) g_end = g @ r @ log_of es g_end"

definition tally_of :: "(int \<times> int \<times> int) list \<Rightarrow> token_usage" where
  "tally_of vs =
     \<lparr>prompt_tokens = sum_list (map fst vs),
      completion_tokens = sum_list (map (fst \<circ> snd) vs),
      total_tokens = sum_list (map (snd \<circ> snd) vs)\<rparr>"

definition records_in_text :: "(string \<times> string) list \<Rightarrow> string \<Rightarrow> (int \<times> int \<times> int) list \<Rightarrow> bool" where
  "records_in_text es g_end vs =
     (list_all unrelated (map fst es) \<and> unrelated g_end
      \<and> map (\<lambda>e. record_values (snd e)) es = map Some vs)"

definition add_tally :: "token_usage \<Rightarrow> (int \<times> int \<times> int) list \<Rightarrow> token_usage" where
  "add_tally u vs =
     \<lparr>prompt_tokens = prompt_tokens u + sum_list (map fst vs),
      completion_tokens = completion_tokens u + sum_list (map (fst \<circ> snd) vs),
      total_tokens = total_tokens u + sum_list (map (snd \<circ> snd) vs)\<rparr>"

definition usage_record_a :: string where
  \<open>usage_record_a = ''"usage": { "prompt_tokens": 10,\<newline>  "completion_tokens": 5, "total_tokens": 15 }''\<close>

definition usage_record_b :: string where
  \<open>usage_record_b = ''"usage":{"prompt_tokens":1,"completion_tokens":2,"total_tokens":3}''\<close>

section \<open>The file system\<close>

text \<open>
  A path is the list of its components below the directory the script runs in (the empty
  list is that directory); the file system maps a path to what is there. \<^verbatim>\<open>Path.exists\<close>,
  \<^verbatim>\<open>shutil.rmtree\<close>, \<^verbatim>\<open>os.mkdir\<close> and \<^verbatim>\<open>Path.mkdir(parents=True, exist_ok=True)\<close> are
  modelled with the errors they raise; permissions and symbolic links are not modelled.
\<close>

type_synonym path = "string list"

datatype node = Dir | File

type_synonym filesystem = "path \<Rightarrow> node option"

datatype exn =
  FileNotFoundError | FileExistsError | NotADirectoryError | PermissionError
  | TimeoutExpired | UnicodeDecodeError | BrokenPipeError | OSError | OtherError string

fun starts_with :: "'a list \<Rightarrow> 'a list \<Rightarrow> bool" where
  "starts_with [] q = True"
| "starts_with (x # p) [] = False"
| "starts_with (x # p) (y # q) = (x = y \<and> starts_with p q)"

definition path_exists :: "filesystem \<Rightarrow> path \<Rightarrow> bool" where
  "path_exists fs p = (fs p \<noteq> None)"

definition rmtree :: "filesystem \<Rightarrow> path \<Rightarrow> exn + filesystem" where
  "rmtree fs p =
     (case fs p of
        None \<Rightarrow> Inl FileNotFoundError
      | Some File \<Rightarrow> Inl NotADirectoryError
      | Some Dir \<Rightarrow> Inr (\<lambda>q. if starts_with p q then None else fs q))"

definition os_mkdir :: "filesystem \<Rightarrow> path \<Rightarrow> exn + filesystem" where
  "os_mkdir fs p =
     (if fs p \<noteq> None then Inl FileExistsError
      else case fs (butlast p) of
             None \<Rightarrow> Inl FileNotFoundError
           | Some File \<Rightarrow> Inl NotADirectoryError
           | Some Dir \<Rightarrow> Inr (fs(p \<mapsto> Dir)))"

function mkdir_parents :: "filesystem \<Rightarrow> path \<Rightarrow> exn + filesystem" where
  "mkdir_parents fs p =
     (case os_mkdir fs p of
        Inr fs1 \<Rightarrow> Inr fs1
      | Inl e \<Rightarrow>
          if e = FileNotFoundError then
            (if p = [] then Inl e
             else (case mkdir_parents fs (butlast p) of
                     Inl e1 \<Rightarrow> Inl e1
                   | Inr fs1 \<Rightarrow>
                       (case os_mkdir fs1 p of
                          Inr fs2 \<Rightarrow> Inr fs2
                        | Inl e2 \<Rightarrow>
                            if e2 \<noteq> FileNotFoundError \<and> fs1 p = Some Dir then Inr fs1
                            else Inl e2)))
          else if fs p = Some Dir then Inr fs
          else Inl e)"
  by pat_completeness auto
termination
  by (relation "measure (\<lambda>(fs, p). length p)") auto

text \<open>
  \<^verbatim>\<open>AgentRunner.setup_workspace\<close>, on the runner's \<^verbatim>\<open>work_dir\<close>.
\<close>

definition setup_workspace :: "path \<Rightarrow> filesystem \<Rightarrow> exn + filesystem" where
  "setup_workspace work_dir fs =
     (if path_exists fs work_dir then
        (case rmtree fs work_dir of
           Inl e \<Rightarrow> Inl e
         | Inr fs1 \<Rightarrow> mkdir_parents fs1 work_dir)
      else mkdir_parents fs work_dir)"

text \<open>
  A file system is a tree: whatever exists lies in a directory. A directory is empty when
  nothing exists below it.
\<close>

definition wf_fs :: "filesystem \<Rightarrow> bool" where
  "wf_fs fs = (\<forall>p. fs p \<noteq> None \<longrightarrow> p \<noteq> [] \<longrightarrow> fs (butlast p) = Some Dir)"

definition empty_dir :: "filesystem \<Rightarrow> path \<Rightarrow> bool" where
  "empty_dir fs p = (fs p = Some Dir \<and> (\<forall>q. starts_with p q \<longrightarrow> q \<noteq> p \<longrightarrow> fs q = None))"

definition used_fs :: filesystem where
  "used_fs = [[] \<mapsto> Dir, [''evals''] \<mapsto> Dir, [''evals'', ''vibe_m_fib''] \<mapsto> Dir,
              [''evals'', ''vibe_m_fib'', ''fibonacci.py''] \<mapsto> File]"

definition fresh_fs :: filesystem where
  "fresh_fs = [[] \<mapsto> Dir, [''evals''] \<mapsto> Dir, [''evals'', ''vibe_m_fib''] \<mapsto> Dir]"

section \<open>The runner\<close>

text \<open>
  \<^verbatim>\<open>AgentRunner.__init__\<close>. \<^verbatim>\<open>str.isalnum\<close> is written out for the code points below 256.
  The prompt file is a path; \<^verbatim>\<open>Path.stem\<close> is the last component without its last
  suffix. The name built from binary, model and prompt stem is taken as one component
  below \<^verbatim>\<open>EVALS_DIR\<close>, which it is whenever the agent name holds no slash (the names
  the command line accepts hold none; the model part and the stem never do).
\<close>

definition py_isalnum :: "char \<Rightarrow> bool" where
  "py_isalnum c =
     (let n = (of_char c :: nat) in
        (48 \<le> n \<and> n \<le> 57) \<or> (65 \<le> n \<and> n \<le> 90) \<or> (97 \<le> n \<and> n \<le> 122)
        \<or> n \<in> {170, 178, 179, 181, 185, 186, 188, 189, 190}
        \<or> (192 \<le> n \<and> n \<le> 214) \<or> (216 \<le> n \<and> n \<le> 246) \<or> 248 \<le> n)"

definition strip :: "string \<Rightarrow> string" where
  "strip s = rev (dropWhile is_space (rev (dropWhile is_space s)))"

definition EVALS_DIR :: path where
  "EVALS_DIR = [''evals'']"

definition binary_map :: "string \<Rightarrow> string option" where
  "binary_map = [''mistral'' \<mapsto> ''vibe'']"

definition path_stem :: "path \<Rightarrow> string" where
  "path_stem p =
     (let name = (if p = [] then [] else last p);
          k = length (takeWhile (\<lambda>c. c \<noteq> CHR ''.'') (rev name))
      in if k < length name \<and> 0 < length name - 1 - k \<and> 0 < k
         then take (length name - 1 - k) name
         else name)"

datatype file_state = Open | Closed

record agent_runner =
  agent_name :: string
  model_name :: string
  prompt_file :: path
  headless :: bool
  agent_binary :: string
  safe_model_name :: string
  work_dir :: path
  log_process :: "nat option"
  server_log_file :: "file_state option"

definition init_runner :: "string \<Rightarrow> string \<Rightarrow> path \<Rightarrow> bool \<Rightarrow> agent_runner" where
  "init_runner agent model prompt hl =
     (let binary = (case binary_map agent of Some b \<Rightarrow> b | None \<Rightarrow> agent);
          safe = strip (filter (\<lambda>c. py_isalnum c \<or> c \<in> set ''-_'') model)
      in \<lparr>agent_name = agent, model_name = model, prompt_file = prompt, headless = hl,
          agent_binary = binary, safe_model_name = safe,
          work_dir = EVALS_DIR @ [binary @ ''_'' @ safe @ ''_'' @ path_stem prompt],
          log_process = None, server_log_file = None\<rparr>)"

text \<open>
  The file system a run of agent \<^verbatim>\<open>vibe\<close> with model \<^verbatim>\<open>foo.bar\<close> and prompt
  \<^verbatim>\<open>fib_prompt.md\<close> leaves behind, with one artifact in its workspace.
\<close>

definition prior_run_fs :: filesystem where
  "prior_run_fs =
     [[] \<mapsto> Dir, [''evals''] \<mapsto> Dir, [''evals'', ''vibe_foobar_fib_prompt''] \<mapsto> Dir,
      [''evals'', ''vibe_foobar_fib_prompt'', ''fibonacci.py''] \<mapsto> File]"

section \<open>The log capture and the run\<close>

text \<open>
  What the environment decides is an input of the model: whether opening the log file and
  spawning \<^verbatim>\<open>lms log stream\<close> succeed, whether the log process exits within the two
  seconds of \<^verbatim>\<open>wait\<close>, whether \<^verbatim>\<open>configure_agent\<close> and \<^verbatim>\<open>execute_agent\<close> return or
  raise. The trace records the calls and the process events in the order they happen.
  The handle of a process is its number.
\<close>

datatype start_outcome = OpenFails exn | SpawnFails exn | Spawned nat

datatype wait_outcome = Exited | TimedOut

datatype agent_outcome = AgentReturns | AgentRaises exn

datatype event =
    StartLogger | OpenLog | Spawn nat
  | ExecuteAgent | AgentDone agent_outcome
  | StopLogger | Terminate nat | Kill nat | CloseLog
  | PostRun

record world =
  runner :: agent_runner
  files :: filesystem
  trace :: "event list"

definition emit :: "event list \<Rightarrow> world \<Rightarrow> world" where
  "emit evs w = w\<lparr>trace := trace w @ evs\<rparr>"

text \<open>
  \<^verbatim>\<open>start_server_logger\<close>: every exception is caught and printed. When \<^verbatim>\<open>open\<close> raises,
  no attribute is assigned; when \<^verbatim>\<open>Popen\<close> raises, the file is open and
  \<^verbatim>\<open>log_process\<close> keeps its value.
\<close>

definition start_server_logger :: "start_outcome \<Rightarrow> world \<Rightarrow> world" where
  "start_server_logger so w =
     (case so of
        OpenFails e \<Rightarrow> emit [StartLogger] w
      | SpawnFails e \<Rightarrow>
          emit [StartLogger, OpenLog] (w\<lparr>runner := (runner w)\<lparr>server_log_file := Some Open\<rparr>\<rparr>)
      | Spawned pid \<Rightarrow>
          emit [StartLogger, OpenLog, Spawn pid]
            (w\<lparr>runner := (runner w)\<lparr>server_log_file := Some Open, log_process := Some pid\<rparr>\<rparr>))"

text \<open>
  \<^verbatim>\<open>stop_server_logger\<close>: \<^verbatim>\<open>wait(timeout=2)\<close> raises \<^verbatim>\<open>TimeoutExpired\<close>, which the
  handler answers with \<^verbatim>\<open>kill\<close>. \<open>server_log_file = None\<close> stands for the attribute
  that was never assigned; closing a closed file changes nothing.
\<close>

definition proc_wait :: "wait_outcome \<Rightarrow> exn + unit" where
  "proc_wait wo = (case wo of Exited \<Rightarrow> Inr () | TimedOut \<Rightarrow> Inl TimeoutExpired)"

definition stop_server_logger :: "wait_outcome \<Rightarrow> world \<Rightarrow> exn + world" where
  "stop_server_logger wo w0 =
     (let w = emit [StopLogger] w0 in
      case (case log_process (runner w) of
              None \<Rightarrow> Inr w
            | Some pid \<Rightarrow>
                (let w1 = emit [Terminate pid] w in
                 case proc_wait wo of
                   Inr u \<Rightarrow> Inr (w1\<lparr>runner := (runner w1)\<lparr>log_process := None\<rparr>\<rparr>)
                 | Inl e \<Rightarrow>
                     if e = TimeoutExpired
                     then Inr ((emit [Kill pid] w1)\<lparr>runner := (runner w1)\<lparr>log_process := None\<rparr>\<rparr>)
                     else Inl e)) of
        Inl e \<Rightarrow> Inl e
      | Inr w2 \<Rightarrow>
          (case server_log_file (runner w2) of
             None \<Rightarrow> Inr w2
           | Some f \<Rightarrow> Inr (emit [CloseLog] (w2\<lparr>runner := (runner w2)\<lparr>server_log_file := Some Closed\<rparr>\<rparr>))))"

text \<open>
  \<^verbatim>\<open>AgentRunner.run\<close> up to the end of the \<^verbatim>\<open>try\<close>/\<^verbatim>\<open>finally\<close> statement; \<open>PostRun\<close>
  stands for everything after it (running the generated scripts, the report). The result
  is the world reached and the exception that leaves \<^verbatim>\<open>run\<close>, if any.
\<close>

record env =
  configure_result :: "exn option"
  start_result :: start_outcome
  agent_result :: agent_outcome
  wait_result :: wait_outcome

definition run :: "env \<Rightarrow> world \<Rightarrow> world \<times> exn option" where
  "run en w =
     (case setup_workspace (work_dir (runner w)) (files w) of
        Inl e \<Rightarrow> (w, Some e)
      | Inr fs1 \<Rightarrow>
          (let w1 = w\<lparr>files := fs1\<rparr> in
           case configure_result en of
             Some e \<Rightarrow> (w1, Some e)
           | None \<Rightarrow>
               (let w2 = start_server_logger (start_result en) w1;
                    w3 = emit [ExecuteAgent, AgentDone (agent_result en)] w2
                in case stop_server_logger (wait_result en) w3 of
                     Inl e \<Rightarrow> (w3, Some e)
                   | Inr w4 \<Rightarrow>
                       (case agent_result en of
                          AgentRaises e \<Rightarrow> (w4, Some e)
                        | AgentReturns \<Rightarrow> (emit [PostRun] w4, None)))))"

definition new_world :: "agent_runner \<Rightarrow> filesystem \<Rightarrow> world" where
  "new_world r fs = \<lparr>runner = r, files = fs, trace = []\<rparr>"

text \<open>
  \<open>precedes a b evs\<close>: an \<open>a\<close> occurs in \<open>evs\<close> with a \<open>b\<close> after it.
\<close>

fun precedes :: "'a \<Rightarrow> 'a \<Rightarrow> 'a list \<Rightarrow> bool" where
  "precedes a b [] = False"
| "precedes a b (x # xs) = ((x = a \<and> b \<in> set xs) \<or> precedes a b xs)"

definition is_termination :: "event \<Rightarrow> bool" where
  "is_termination ev = (case ev of Terminate pid \<Rightarrow> True | Kill pid \<Rightarrow> True | _ \<Rightarrow> False)"

section \<open>The agent process\<close>

text \<open>
  \<^verbatim>\<open>AgentRunner._run_process\<close>. The function has no handler, so whatever raises inside it
  leaves it. The environment decides each step that can raise:
  \<^item> \<^verbatim>\<open>open(chat_log_path, "w")\<close> raises, and no transcript file is made;
  \<^item> \<^verbatim>\<open>subprocess.Popen\<close> raises (the executable is missing or may not be run), after the
    transcript file was created empty;
  \<^item> the process runs. Each turn of the loop over \<^verbatim>\<open>process.stdout\<close> is one of: the line
    is read, echoed to the console and written to the transcript; reading raises (the
    pipe is decoded strictly, so a byte that is no UTF-8 raises UnicodeDecodeError);
    echoing the line with \<^verbatim>\<open>sys.stdout.write\<close> or \<^verbatim>\<open>flush\<close> raises (a closed console pipe),
    before the line is written; writing or flushing the transcript raises, with some part
    of the line in the file. After the last line the return code is read and the
    annotation line is written, which can raise as well, with some part of it in the file.
  The result is the text of the transcript file (\<open>None\<close> when it was never created) and
  the exception that leaves the function, if any. What is printed to the console is not
  part of the result.
\<close>

datatype line_outcome =
    Streamed string
  | ReadRaises exn
  | EchoRaises string exn
  | LogRaises string exn string

datatype popen_result =
    TranscriptOpenFails exn
  | LaunchFails exn
  | Launched "line_outcome list" int "(exn \<times> string) option"

fun stream_output :: "line_outcome list \<Rightarrow> string \<Rightarrow> string \<times> exn option" where
  \<comment> \<open>the loop over \<^verbatim>\<open>process.stdout\<close>: the transcript so far, and the exception that ends
      the loop, if any\<close>
  "stream_output [] t = (t, None)"
| "stream_output (Streamed line # rest) t = stream_output rest (t @ line)"
| "stream_output (ReadRaises e # rest) t = (t, Some e)"
| "stream_output (EchoRaises line e # rest) t = (t, Some e)"
| "stream_output (LogRaises line e written # rest) t = (t @ written, Some e)"

definition digit_char :: "nat \<Rightarrow> char" where
  "digit_char d = ''0123456789'' ! d"

fun str_nat :: "nat \<Rightarrow> string" where
  "str_nat n = (if n < 10 then [digit_char n] else str_nat (n div 10) @ [digit_char (n mod 10)])"

definition str_int :: "int \<Rightarrow> string" where
  "str_int i = (if i < 0 then CHR ''-'' # str_nat (nat (- i)) else str_nat (nat i))"

definition annotation :: "int \<Rightarrow> string" where
  \<comment> \<open>the line written after the process has exited\<close>
  "annotation returncode =
     (if returncode \<noteq> 0
      then ''\<newline>[ERROR] Process exited with code '' @ str_int returncode @ ''\<newline>''
      else ''\<newline>[SUCCESS] Process exited cleanly.\<newline>'')"

definition run_process :: "popen_result \<Rightarrow> string option \<times> exn option" where
  "run_process pr =
     (case pr of
        TranscriptOpenFails e \<Rightarrow> (None, Some e)
      | LaunchFails e \<Rightarrow> (Some [], Some e)
      | Launched outcomes returncode annotate \<Rightarrow>
          (case stream_output outcomes [] of
             (t, Some e) \<Rightarrow> (Some t, Some e)
           | (t, None) \<Rightarrow>
               (case annotate of
                  Some (e, written) \<Rightarrow> (Some (t @ written), Some e)
                | None \<Rightarrow> (Some (t @ annotation returncode), None))))"

definition start_events :: "start_outcome \<Rightarrow> event list" where
  "start_events so =
     (case so of OpenFails e \<Rightarrow> [StartLogger] | SpawnFails e \<Rightarrow> [StartLogger, OpenLog]
      | Spawned pid \<Rightarrow> [StartLogger, OpenLog, Spawn pid])"

definition example_runner :: agent_runner where
  "example_runner = init_runner ''vibe'' ''foobar'' [''fib_prompt.md''] True"

definition example_env :: env where
  "example_env = \<lparr>configure_result = None, start_result = Spawned 7,
                   agent_result = AgentRaises FileNotFoundError, wait_result = TimedOut\<rparr>"

section \<open>Properties of the log mining\<close>

lemmas time_defs = get_prompt_processing_time_def close_open_block_def scan_line_def
  scan_init_def line_timestamp_def ts_pattern_match_def ts_pattern_def strptime_def marker_def
  is_digit_def digits_val_def digit_val_def seconds_between_def toordinal_def
  days_before_year_def days_before_month_def days_in_month_def is_leap_def

lemmas usage_defs = get_token_usage_def usage_zero_def match_usage_def usage_key_def
  skip_ws_def digits1_def is_digit_def is_space_def py_int_def int_max_str_digits_def
  digits_val_def digit_val_def

subsection \<open>Lines without a timestamp, and the block left open\<close>

lemma scan_line_no_timestamp: "line_timestamp l = None \<Longrightarrow> scan_line st l = st"
  by (simp add: scan_line_def)

lemma scan_no_timestamps:
  "\<forall>l\<in>set ls. line_timestamp l = None \<Longrightarrow> foldl scan_line st ls = st"
  by (induction ls arbitrary: st) (simp_all add: scan_line_no_timestamp)





text \<open>
  Claim C10. \<^verbatim>\<open>get_prompt_processing_time\<close> can return a negative duration: each interval
  adds end minus start and nothing clamps it. On the log whose marker line is stamped
  18:10:46 and whose closing line is stamped 18:10:43 the result is \<open>-3\<close>.
\<close>

theorem prompt_time_negative:
  "get_prompt_processing_time (Contents out_of_order_log) = -3
   \<and> get_prompt_processing_time (Contents out_of_order_log) < 0"
  by (simp add: out_of_order_log_def time_defs)

lemma example_log_time: "get_prompt_processing_time (Contents example_log) = 3"
  by (simp add: example_log_def time_defs)

lemma example_log_tally: "get_token_usage (Contents example_log) = usage_zero"
  by (simp add: example_log_def usage_defs)

lemma example_log_usage_time: "get_prompt_processing_time (Contents example_log_usage) = 3"
  by (simp add: example_log_usage_def time_defs)

lemma example_log_usage_tally:
  "get_token_usage (Contents example_log_usage)
     = \<lparr>prompt_tokens = 10, completion_tokens = 5, total_tokens = 15\<rparr>"
  by (simp add: example_log_usage_def usage_defs)

text \<open>
  Claim C2, as amended. On the example log the prompt processing time is 3 seconds. The
  record of the example, written without the key \<^verbatim>\<open>"usage":\<close>, is no usage record for
  the pattern and the tally of that log is zero; with the key in front of the braces the
  tally is 10, 5 and 15.
\<close>

theorem example_log_extraction:
  "get_prompt_processing_time (Contents example_log) = 3
   \<and> get_token_usage (Contents example_log) = usage_zero
   \<and> get_prompt_processing_time (Contents example_log_usage) = 3
   \<and> get_token_usage (Contents example_log_usage)
       = \<lparr>prompt_tokens = 10, completion_tokens = 5, total_tokens = 15\<rparr>"
  by (simp only: example_log_time example_log_tally example_log_usage_time
      example_log_usage_tally)

theorem example_log_tally_counterexample:
  "get_token_usage (Contents example_log)
     \<noteq> \<lparr>prompt_tokens = 10, completion_tokens = 5, total_tokens = 15\<rparr>"
  by (simp add: example_log_tally usage_zero_def)

text \<open>
  Claim C3, as amended. A log none of whose lines begins with a timestamp that parses has
  prompt processing time 0; its token tally is zero when, besides, the pattern finds no
  usage record in it. The tally does not look at timestamps.
\<close>

theorem no_timestamps_zero:
  assumes "\<forall>l\<in>set (readlines t). line_timestamp l = None" and "findall_usage t = []"
  shows "get_prompt_processing_time (Contents t) = 0
     \<and> get_token_usage (Contents t) = usage_zero"
  using assms
  by (simp add: get_prompt_processing_time_def get_token_usage_def scan_no_timestamps
      close_open_block_def scan_init_def)

theorem no_timestamps_zero_witness:
  "map line_timestamp (readlines ''hello\<newline>world'') = [None, None]
   \<and> findall_usage ''hello\<newline>world'' = []
   \<and> get_prompt_processing_time (Contents ''hello\<newline>world'') = 0
   \<and> get_token_usage (Contents ''hello\<newline>world'') = usage_zero"
proof -
  have a: "map line_timestamp (readlines ''hello\<newline>world'') = [None, None]"
    by (simp add: line_timestamp_def ts_pattern_match_def ts_pattern_def)
  have b: "findall_usage ''hello\<newline>world'' = []"
    by (simp add: match_usage_def usage_key_def)
  have c: "\<forall>l\<in>set (readlines ''hello\<newline>world''). line_timestamp l = None"
    by (simp add: line_timestamp_def ts_pattern_match_def ts_pattern_def)
  from a b no_timestamps_zero [OF c b] show ?thesis by simp
qed

theorem no_timestamps_tally_counterexample:
  "map line_timestamp (readlines bare_usage_log) = [None]
   \<and> get_token_usage (Contents bare_usage_log)
       = \<lparr>prompt_tokens = 1, completion_tokens = 2, total_tokens = 3\<rparr>
   \<and> get_token_usage (Contents bare_usage_log) \<noteq> usage_zero"
  by (simp add: bare_usage_log_def usage_defs line_timestamp_def ts_pattern_match_def
      ts_pattern_def)



subsection \<open>Summing usage records\<close>

lemma lit_Some_iff: "lit p s = Some r \<longleftrightarrow> s = p @ r"
  by (induction p s rule: lit.induct) auto

lemma lit_None_iff: "lit p s = None \<longleftrightarrow> (\<forall>r. s \<noteq> p @ r)"
  using lit_Some_iff [of p s] by (cases "lit p s") auto

lemma skip_ws_append: "skip_ws s \<noteq> [] \<Longrightarrow> skip_ws (s @ x) = skip_ws s @ x"
  unfolding skip_ws_def by (auto simp: dropWhile_eq_Nil_conv dropWhile_append1)

lemma digits1_append:
  "digits1 s = Some (d, r) \<Longrightarrow> r \<noteq> [] \<Longrightarrow> digits1 (s @ x) = Some (d, r @ x)"
  unfolding digits1_def
  by (auto simp: dropWhile_eq_Nil_conv dropWhile_append1 takeWhile_append1 split: if_splits)

lemma digits1_nonempty: "digits1 s = Some (d, r) \<Longrightarrow> s \<noteq> []"
  by (auto simp: digits1_def split: if_splits)

lemma lit_ws_append:
  "lit (a # p) (skip_ws s) = Some r \<Longrightarrow> lit (a # p) (skip_ws (s @ x)) = Some (r @ x)"
  by (cases "skip_ws s = []") (auto simp: skip_ws_append lit_Some_iff)

lemma digits1_ws_append:
  "digits1 (skip_ws s) = Some (d, r) \<Longrightarrow> r \<noteq> []
     \<Longrightarrow> digits1 (skip_ws (s @ x)) = Some (d, r @ x)"
  using digits1_nonempty [of "skip_ws s" d r] by (simp add: skip_ws_append digits1_append)

lemma match_usage_append:
  assumes "match_usage r = Some (m, rest)"
  shows "match_usage (r @ x) = Some (m, rest @ x)"
proof -
  from assms obtain s1 s2 s3 p s4 s5 s6 c s7 s8 s9 t s10 where
    st: \<open>lit usage_key r = Some s1\<close>
      \<open>lit ''{'' (skip_ws s1) = Some s2\<close>
      \<open>lit ''"prompt_tokens":'' (skip_ws s2) = Some s3\<close>
      \<open>digits1 (skip_ws s3) = Some (p, s4)\<close>
      \<open>lit '','' s4 = Some s5\<close>
      \<open>lit ''"completion_tokens":'' (skip_ws s5) = Some s6\<close>
      \<open>digits1 (skip_ws s6) = Some (c, s7)\<close>
      \<open>lit '','' s7 = Some s8\<close>
      \<open>lit ''"total_tokens":'' (skip_ws s8) = Some s9\<close>
      \<open>digits1 (skip_ws s9) = Some (t, s10)\<close>
      \<open>lit ''}'' (skip_ws s10) = Some rest\<close>
      \<open>m = (p, c, t)\<close>
    unfolding match_usage_def by (auto simp: bind_eq_Some_conv simp del: lit.simps)
  have n4: "s4 \<noteq> []" using st(5) by (auto simp: lit_Some_iff)
  have n7: "s7 \<noteq> []" using st(8) by (auto simp: lit_Some_iff)
  have n10: "s10 \<noteq> []" using st(11) by (auto simp: lit_Some_iff skip_ws_def)
  have e1: "lit usage_key (r @ x) = Some (s1 @ x)"
    using st(1) by (simp add: lit_Some_iff)
  have e5: "lit '','' (s4 @ x) = Some (s5 @ x)"
    using st(5) by (simp add: lit_Some_iff)
  have e8: "lit '','' (s7 @ x) = Some (s8 @ x)"
    using st(8) by (simp add: lit_Some_iff)
  show ?thesis
    unfolding match_usage_def
    using e1 lit_ws_append [OF st(2), of x] lit_ws_append [OF st(3), of x]
      digits1_ws_append [OF st(4) n4, of x] e5 lit_ws_append [OF st(6), of x]
      digits1_ws_append [OF st(7) n7, of x] e8 lit_ws_append [OF st(9), of x]
      digits1_ws_append [OF st(10) n10, of x] lit_ws_append [OF st(11), of x] st(12)
    by (simp del: lit.simps)
qed

lemma match_usage_key: "match_usage r = Some y \<Longrightarrow> \<exists>s. r = usage_key @ s"
  unfolding match_usage_def by (auto simp: bind_eq_Some_conv lit_Some_iff simp del: lit.simps)

lemma findall_record:
  assumes "match_usage r = Some (m, [])"
  shows "findall_usage (r @ x) = m # findall_usage x"
proof -
  from match_usage_key [OF assms] obtain c cs where "r @ x = c # cs"
    by (auto simp: usage_key_def)
  with match_usage_append [OF assms, of x] show ?thesis by simp
qed

lemma usage_key_no_border:
  assumes "usage_key @ r = s @ usage_key @ r'" and "s \<noteq> []"
  shows "\<exists>q. s = usage_key @ q"
proof (cases "length usage_key \<le> length s")
  case True
  with assms(1) show ?thesis
    by (metis append_eq_append_conv_if append_take_drop_id)
next
  case False
  define k where "k = length s"
  have len: "length usage_key = 8" by (simp add: usage_key_def)
  have k: "0 < k" "k < 8" using False assms(2) by (simp_all add: k_def len)
  have "drop k (usage_key @ r) = usage_key @ r'"
    using assms(1) by (simp add: k_def)
  then have d: "drop k usage_key @ r = usage_key @ r'"
    using k by (simp add: len)
  from k have "k = 1 \<or> k = 2 \<or> k = 3 \<or> k = 4 \<or> k = 5 \<or> k = 6 \<or> k = 7" by arith
  with d show ?thesis
    by (elim disjE) (simp_all add: usage_key_def)
qed

lemma findall_gap:
  assumes "unrelated g" and "x = [] \<or> (\<exists>r. x = usage_key @ r)"
  shows "findall_usage (g @ x) = findall_usage x"
  using assms(1)
proof (induction g)
  case Nil
  show ?case by simp
next
  case (Cons c g)
  from Cons.prems have no: "lit usage_key (c # g) = None" and rest: "unrelated g"
    by (simp_all add: unrelated_def)
  have "lit usage_key (c # g @ x) = None"
  proof (rule ccontr)
    assume "lit usage_key (c # g @ x) \<noteq> None"
    then obtain q where q: "(c # g) @ x = usage_key @ q"
      by (auto simp: lit_Some_iff)
    from assms(2) show False
    proof
      assume "x = []"
      with q no show False by (simp add: lit_None_iff)
    next
      assume "\<exists>r. x = usage_key @ r"
      then obtain r where "x = usage_key @ r" ..
      with q have "usage_key @ q = (c # g) @ usage_key @ r" by simp
      from usage_key_no_border [OF this] no show False by (auto simp: lit_None_iff)
    qed
  qed
  then have "match_usage (c # g @ x) = None"
    by (simp add: match_usage_def del: lit.simps)
  with Cons.IH [OF rest] show ?case by simp
qed

lemma record_values_match:
  assumes "record_values r = Some (a, b, d)"
  obtains p c t where "match_usage r = Some ((p, c, t), [])"
    and "py_int p = Some a" and "py_int c = Some b" and "py_int t = Some d"
  using assms unfolding record_values_def
  by (auto split: option.splits prod.splits if_splits)

lemma add_matches_log:
  assumes "list_all unrelated (map fst es)" and "unrelated g_end"
    and "map (\<lambda>e. record_values (snd e)) es = map Some vs"
  shows "add_matches u (findall_usage (log_of es g_end)) = add_tally u vs"
  using assms
proof (induction es arbitrary: u vs)
  case Nil
  have "findall_usage (g_end @ []) = findall_usage []"
    by (rule findall_gap [OF Nil.prems(2)]) simp
  with Nil.prems(3) show ?case by (simp add: add_tally_def)
next
  case (Cons e es)
  obtain g r where e: "e = (g, r)" by (cases e)
  from Cons.prems(3) e obtain v vs' where vs: "vs = v # vs'"
    and v: "record_values r = Some v" and rest: "map (\<lambda>e. record_values (snd e)) es = map Some vs'"
    by (cases vs) auto
  obtain a b d where abd: "v = (a, b, d)" by (cases v)
  from v abd obtain p c t where m: "match_usage r = Some ((p, c, t), [])"
    and ints: "py_int p = Some a" "py_int c = Some b" "py_int t = Some d"
    by (auto elim: record_values_match)
  from match_usage_key [OF m] obtain q where "r = usage_key @ q" ..
  then have key: "r @ log_of es g_end = [] \<or> (\<exists>q'. r @ log_of es g_end = usage_key @ q')"
    by simp
  from Cons.prems(1) e have ug: "unrelated g" and ues: "list_all unrelated (map fst es)"
    by simp_all
  have "findall_usage (log_of (e # es) g_end) = findall_usage (r @ log_of es g_end)"
    using findall_gap [OF ug key] e by simp
  also have "\<dots> = (p, c, t) # findall_usage (log_of es g_end)"
    by (rule findall_record [OF m])
  finally have "add_matches u (findall_usage (log_of (e # es) g_end))
      = add_matches (u\<lparr>prompt_tokens := prompt_tokens u + a,
                        completion_tokens := completion_tokens u + b,
                        total_tokens := total_tokens u + d\<rparr>)
          (findall_usage (log_of es g_end))"
    using ints by simp
  also have "\<dots> = add_tally (u\<lparr>prompt_tokens := prompt_tokens u + a,
                        completion_tokens := completion_tokens u + b,
                        total_tokens := total_tokens u + d\<rparr>) vs'"
    by (rule Cons.IH [OF ues Cons.prems(2) rest])
  also have "\<dots> = add_tally u vs"
    by (simp add: add_tally_def vs abd)
  finally show ?case .
qed

lemma sum_list_mset_cong:
  fixes f :: "int \<times> int \<times> int \<Rightarrow> int"
  assumes "mset vs' = mset vs"
  shows "sum_list (map f vs') = sum_list (map f vs)"
proof -
  have "sum_mset (mset (map f vs')) = sum_mset (mset (map f vs))"
    by (simp only: mset_map assms)
  then show ?thesis by (simp only: sum_mset_sum_list)
qed

lemma tally_of_mset: "mset vs' = mset vs \<Longrightarrow> tally_of vs' = tally_of vs"
  by (simp add: tally_of_def sum_list_mset_cong [of vs' vs])

lemma get_token_usage_log:
  assumes "records_in_text xs g ws"
  shows "get_token_usage (Contents (log_of xs g)) = tally_of ws"
proof -
  from assms have "add_matches usage_zero (findall_usage (log_of xs g)) = add_tally usage_zero ws"
    unfolding records_in_text_def by (intro add_matches_log) simp_all
  then show ?thesis
    by (simp add: get_token_usage_def add_tally_def tally_of_def usage_zero_def)
qed

text \<open>
  Claim C5. A log made of well-formed usage records with values \<open>(p\<^sub>i, c\<^sub>i, t\<^sub>i)\<close>, with
  text that does not hold the key \<^verbatim>\<open>"usage":\<close> before, between and after them, has the
  tally of the three sums. A second such log with the same records in another order and
  with other text around them has the same tally.
\<close>

theorem token_usage_sums:
  assumes "records_in_text es g_end vs" and "records_in_text es' g_end' vs'"
    and "mset vs' = mset vs"
  shows "get_token_usage (Contents (log_of es g_end)) = tally_of vs
     \<and> get_token_usage (Contents (log_of es' g_end')) = get_token_usage (Contents (log_of es g_end))"
  by (simp only: get_token_usage_log [OF assms(1)] get_token_usage_log [OF assms(2)]
      tally_of_mset [OF assms(3)])

theorem token_usage_sums_witness:
  \<open>get_token_usage
      (Contents (log_of [(''noise {"id": 7} '', usage_record_a), (''\<newline>[x] '', usage_record_b)] '' tail''))
     = \<lparr>prompt_tokens = 11, completion_tokens = 7, total_tokens = 18\<rparr>
   \<and> get_token_usage
      (Contents (log_of [([], usage_record_b), (''between "quoted" text'', usage_record_a)] []))
     = get_token_usage
      (Contents (log_of [(''noise {"id": 7} '', usage_record_a), (''\<newline>[x] '', usage_record_b)] '' tail''))\<close>
proof -
  have a: "record_values usage_record_a = Some (10, 5, 15)"
    by (simp add: record_values_def usage_record_a_def usage_defs)
  have b: "record_values usage_record_b = Some (1, 2, 3)"
    by (simp add: record_values_def usage_record_b_def usage_defs)
  have 1: \<open>records_in_text [(''noise {"id": 7} '', usage_record_a), (''\<newline>[x] '', usage_record_b)] '' tail''
      [(10, 5, 15), (1, 2, 3)]\<close>
    by (simp add: records_in_text_def a b unrelated_def usage_key_def)
  have 2: \<open>records_in_text [([], usage_record_b), (''between "quoted" text'', usage_record_a)] []
      [(1, 2, 3), (10, 5, 15)]\<close>
    by (simp add: records_in_text_def a b unrelated_def usage_key_def)
  have 3: "mset [(1, 2, 3), (10, 5, 15)] = mset [(10, 5, 15), (1::int, 2::int, 3::int)]"
    by simp
  from token_usage_sums [OF 1 2 3] show ?thesis
    by (simp add: tally_of_def)
qed

section \<open>Properties of the workspace\<close>

declare mkdir_parents.simps [simp del]

lemma starts_with_iff: "starts_with p q \<longleftrightarrow> (\<exists>r. q = p @ r)"
  by (induction p q rule: starts_with.induct) auto

lemma starts_with_refl: "starts_with p p"
  by (simp add: starts_with_iff)

lemma starts_with_butlast: "p \<noteq> [] \<Longrightarrow> \<not> starts_with p (butlast p)"
proof
  assume "p \<noteq> []" and "starts_with p (butlast p)"
  then obtain r where "butlast p = p @ r" by (auto simp: starts_with_iff)
  then have "length (butlast p) = length p + length r" by simp
  moreover from \<open>p \<noteq> []\<close> have "length (butlast p) < length p" by simp
  ultimately show False by linarith
qed

lemma starts_with_antisym: "starts_with p q \<Longrightarrow> starts_with q p \<Longrightarrow> p = q"
  by (auto simp: starts_with_iff)

lemma starts_with_butlast_trans: "starts_with q (butlast p) \<Longrightarrow> starts_with q p"
proof -
  assume "starts_with q (butlast p)"
  then obtain r where r: "butlast p = q @ r" by (auto simp: starts_with_iff)
  show ?thesis
  proof (cases "p = []")
    case True with r show ?thesis by (simp add: starts_with_iff)
  next
    case False
    then have "p = butlast p @ [last p]" by simp
    with r have "p = q @ (r @ [last p])" by simp
    then show ?thesis unfolding starts_with_iff by blast
  qed
qed

lemma os_mkdir_Inr:
  "os_mkdir fs p = Inr fs1 \<longleftrightarrow> fs p = None \<and> fs (butlast p) = Some Dir \<and> fs1 = fs(p \<mapsto> Dir)"
  by (auto simp: os_mkdir_def split: option.splits node.splits)

lemma os_mkdir_not_found:
  "os_mkdir fs p = Inl FileNotFoundError \<longleftrightarrow> fs p = None \<and> fs (butlast p) = None"
  by (auto simp: os_mkdir_def split: option.splits node.splits)

lemma os_mkdir_Inl_cases:
  "os_mkdir fs p = Inl e \<Longrightarrow> fs p = None \<Longrightarrow> e = FileNotFoundError \<or> e = NotADirectoryError"
  by (auto simp: os_mkdir_def split: option.splits node.splits if_splits)

lemma mkdir_parents_created:
  "mkdir_parents fs p = Inr fs' \<Longrightarrow> fs p = None \<Longrightarrow>
     p \<noteq> [] \<and> fs' p = Some Dir \<and> fs' (butlast p) = Some Dir
     \<and> (\<forall>q. \<not> starts_with q p \<longrightarrow> fs' q = fs q)"
proof (induction fs p arbitrary: fs' rule: mkdir_parents.induct)
  case (1 fs p)
  show ?case
  proof (cases "os_mkdir fs p")
    case (Inr fs1)
    then have a: "fs (butlast p) = Some Dir" "fs1 = fs(p \<mapsto> Dir)"
      by (simp_all add: os_mkdir_Inr)
    from Inr "1.prems"(1) have "fs' = fs1"
      by (subst (asm) mkdir_parents.simps) simp
    moreover from a "1.prems"(2) have "p \<noteq> []" by auto
    ultimately show ?thesis using a
      by (auto simp: starts_with_refl)
  next
    case (Inl e)
    from os_mkdir_Inl_cases [OF Inl "1.prems"(2)] have "e = FileNotFoundError"
    proof
      assume "e = NotADirectoryError"
      with Inl "1.prems" show ?thesis
        by (subst (asm) mkdir_parents.simps) simp
    qed
    with Inl have nf: "os_mkdir fs p = Inl FileNotFoundError" by simp
    then have none: "fs (butlast p) = None" by (simp add: os_mkdir_not_found)
    have ne: "p \<noteq> []"
      using nf "1.prems"(1) by (subst (asm) mkdir_parents.simps) (auto split: if_splits)
    from nf ne "1.prems"(1) obtain fs1 where
      rec: "mkdir_parents fs (butlast p) = Inr fs1"
      by (subst (asm) mkdir_parents.simps) (auto split: sum.splits)
    from "1.IH" [OF nf _ ne rec none] have ih:
      "fs1 (butlast p) = Some Dir" "\<forall>q. \<not> starts_with q (butlast p) \<longrightarrow> fs1 q = fs q"
      by simp_all
    have "\<not> starts_with p (butlast p)" using ne by (rule starts_with_butlast)
    with ih(2) "1.prems"(2) have p1: "fs1 p = None" by simp
    with ih(1) have mk: "os_mkdir fs1 p = Inr (fs1(p \<mapsto> Dir))"
      by (simp add: os_mkdir_Inr)
    from nf ne rec mk "1.prems"(1) have fs': "fs' = fs1(p \<mapsto> Dir)"
      by (subst (asm) mkdir_parents.simps) simp
    have "fs' q = fs q" if "\<not> starts_with q p" for q
    proof -
      from that have "q \<noteq> p" by (auto simp: starts_with_refl)
      moreover from that have "\<not> starts_with q (butlast p)"
        using starts_with_butlast_trans by blast
      ultimately show ?thesis using fs' ih(2) by simp
    qed
    with fs' ih(1) ne show ?thesis
      by (auto simp: butlast_conv_take)
  qed
qed


lemma rmtree_Inr:
  "rmtree fs p = Inr fs1 \<longleftrightarrow>
     fs p = Some Dir \<and> fs1 = (\<lambda>q. if starts_with p q then None else fs q)"
  by (auto simp: rmtree_def split: option.splits node.splits)

lemma wf_fs_below_missing:
  assumes "wf_fs fs" and "fs p = None" and "starts_with p q"
  shows "fs q = None"
proof -
  from assms(3) obtain r where "q = p @ r" by (auto simp: starts_with_iff)
  moreover have "fs (p @ r) = None"
  proof (induction r rule: rev_induct)
    case Nil
    with assms(2) show ?case by simp
  next
    case (snoc x r)
    show ?case
    proof (rule ccontr)
      assume "fs (p @ r @ [x]) \<noteq> None"
      with assms(1) have "fs (butlast (p @ r @ [x])) = Some Dir"
        unfolding wf_fs_def by blast
      with snoc show False by (simp add: butlast_append)
    qed
  qed
  ultimately show ?thesis by simp
qed

lemma mkdir_parents_fresh:
  assumes "fs p = None" and "fs (butlast p) = Some Dir"
  shows "mkdir_parents fs p = Inr (fs(p \<mapsto> Dir))"
proof -
  from assms have "os_mkdir fs p = Inr (fs(p \<mapsto> Dir))" by (simp add: os_mkdir_Inr)
  then show ?thesis by (subst mkdir_parents.simps) simp
qed

lemma setup_workspace_result:
  assumes "wf_fs fs" and "setup_workspace p fs = Inr fs1"
  shows "p \<noteq> [] \<and> empty_dir fs1 p \<and> fs1 (butlast p) = Some Dir"
proof (cases "path_exists fs p")
  case True
  with assms(2) obtain fsr where r: "rmtree fs p = Inr fsr" and m: "mkdir_parents fsr p = Inr fs1"
    by (auto simp: setup_workspace_def split: sum.splits)
  from r have fsr: "fsr = (\<lambda>q. if starts_with p q then None else fs q)"
    by (simp add: rmtree_Inr)
  then have "fsr p = None" by (simp add: starts_with_refl)
  from mkdir_parents_created [OF m this] have c: "p \<noteq> []" "fs1 p = Some Dir"
    "fs1 (butlast p) = Some Dir" "\<forall>q. \<not> starts_with q p \<longrightarrow> fs1 q = fsr q"
    by simp_all
  have "fs1 q = None" if "starts_with p q" "q \<noteq> p" for q
  proof -
    from that have "\<not> starts_with q p" using starts_with_antisym by blast
    with c(4) have "fs1 q = fsr q" by simp
    with that(1) fsr show ?thesis by simp
  qed
  with c show ?thesis by (simp add: empty_dir_def)
next
  case False
  then have none: "fs p = None" by (simp add: path_exists_def)
  from False assms(2) have m: "mkdir_parents fs p = Inr fs1"
    by (simp add: setup_workspace_def)
  from mkdir_parents_created [OF m none] have c: "p \<noteq> []" "fs1 p = Some Dir"
    "fs1 (butlast p) = Some Dir" "\<forall>q. \<not> starts_with q p \<longrightarrow> fs1 q = fs q"
    by simp_all
  have "fs1 q = None" if "starts_with p q" "q \<noteq> p" for q
  proof -
    from that have "\<not> starts_with q p" using starts_with_antisym by blast
    with c(4) have "fs1 q = fs q" by simp
    with wf_fs_below_missing [OF assms(1) none that(1)] show ?thesis by simp
  qed
  with c show ?thesis by (simp add: empty_dir_def)
qed

lemma setup_workspace_again:
  assumes "p \<noteq> []" and "empty_dir fs1 p" and "fs1 (butlast p) = Some Dir"
  shows "setup_workspace p fs1 = Inr fs1"
proof -
  define fsr where "fsr = (\<lambda>q. if starts_with p q then None else fs1 q)"
  from assms(2) have d: "fs1 p = Some Dir" by (simp add: empty_dir_def)
  then have r: "rmtree fs1 p = Inr fsr" by (simp add: rmtree_Inr fsr_def)
  have "fsr p = None" by (simp add: fsr_def starts_with_refl)
  moreover have "fsr (butlast p) = Some Dir"
    using assms(1,3) by (simp add: fsr_def starts_with_butlast)
  ultimately have m: "mkdir_parents fsr p = Inr (fsr(p \<mapsto> Dir))"
    by (rule mkdir_parents_fresh)
  have "fsr(p \<mapsto> Dir) = fs1"
  proof
    fix q
    show "(fsr(p \<mapsto> Dir)) q = fs1 q"
      using assms(2) d by (auto simp: fsr_def empty_dir_def)
  qed
  with r m d show ?thesis
    by (simp add: setup_workspace_def path_exists_def)
qed

lemma mkdir_parents_succeeds:
  assumes "wf_fs fs" and "fs [] = Some Dir"
  shows "fs p = None \<Longrightarrow> (\<forall>q. starts_with q p \<longrightarrow> fs q \<noteq> Some File)
     \<Longrightarrow> \<exists>fs'. mkdir_parents fs p = Inr fs'"
proof (induction p rule: rev_induct)
  case Nil
  with assms(2) show ?case by simp
next
  case (snoc x xs)
  have pre: "starts_with q (xs @ [x])" if "starts_with q xs" for q
    using that by (auto simp: starts_with_iff)
  show ?case
  proof (cases "fs xs")
    case None
    with snoc.IH snoc.prems(2) pre obtain fs1 where m: "mkdir_parents fs xs = Inr fs1"
      by blast
    from mkdir_parents_created [OF m None] have c: "fs1 xs = Some Dir"
      "\<forall>q. \<not> starts_with q xs \<longrightarrow> fs1 q = fs q"
      by simp_all
    have "\<not> starts_with (xs @ [x]) xs"
      using starts_with_butlast [of "xs @ [x]"] by simp
    with c(2) snoc.prems(1) have "fs1 (xs @ [x]) = None" by simp
    with c(1) have mk: "os_mkdir fs1 (xs @ [x]) = Inr (fs1(xs @ [x] \<mapsto> Dir))"
      by (simp add: os_mkdir_Inr)
    from None snoc.prems(1) have "os_mkdir fs (xs @ [x]) = Inl FileNotFoundError"
      by (simp add: os_mkdir_not_found)
    with m mk show ?thesis
      by (subst mkdir_parents.simps) simp
  next
    case (Some n)
    have "starts_with xs (xs @ [x])" by (simp add: starts_with_iff)
    with snoc.prems(2) Some have "fs xs = Some Dir" by (cases n) auto
    with snoc.prems(1) mkdir_parents_fresh [of fs "xs @ [x]"] show ?thesis by simp
  qed
qed

lemma setup_workspace_succeeds:
  assumes "wf_fs fs" and "fs [] = Some Dir" and "p \<noteq> []"
    and "\<forall>q. starts_with q p \<longrightarrow> fs q \<noteq> Some File"
  shows "\<exists>fs1. setup_workspace p fs = Inr fs1"
proof (cases "fs p")
  case None
  from mkdir_parents_succeeds [OF assms(1,2) None assms(4)] None show ?thesis
    by (simp add: setup_workspace_def path_exists_def)
next
  case (Some n)
  with assms(4) have d: "fs p = Some Dir"
    using starts_with_refl [of p] by (cases n) auto
  define fsr where "fsr = (\<lambda>q. if starts_with p q then None else fs q)"
  from d have r: "rmtree fs p = Inr fsr" by (simp add: rmtree_Inr fsr_def)
  from d assms(1,3) have "fs (butlast p) = Some Dir" by (simp add: wf_fs_def)
  then have "fsr (butlast p) = Some Dir"
    using assms(3) by (simp add: fsr_def starts_with_butlast)
  moreover have "fsr p = None" by (simp add: fsr_def starts_with_refl)
  ultimately have "mkdir_parents fsr p = Inr (fsr(p \<mapsto> Dir))"
    by (rule mkdir_parents_fresh [rotated])
  with r d show ?thesis by (simp add: setup_workspace_def path_exists_def)
qed

text \<open>
  Claim C7. In a tree-shaped file system where no component of the path is a regular file,
  \<^verbatim>\<open>setup_workspace\<close> returns and leaves an empty directory at the path, inside a
  directory; calling it again, now that the path exists, returns without error and leaves
  the same file system. What was below the path before is gone.
\<close>

theorem setup_workspace_idempotent:
  assumes "wf_fs fs" and "fs [] = Some Dir" and "p \<noteq> []"
    and "\<forall>q. starts_with q p \<longrightarrow> fs q \<noteq> Some File"
  shows "\<exists>fs1. setup_workspace p fs = Inr fs1
     \<and> empty_dir fs1 p \<and> fs1 (butlast p) = Some Dir
     \<and> path_exists fs1 p \<and> setup_workspace p fs1 = Inr fs1"
proof -
  from setup_workspace_succeeds [OF assms] obtain fs1 where s: "setup_workspace p fs = Inr fs1" ..
  from setup_workspace_result [OF assms(1) s] have r: "p \<noteq> []" "empty_dir fs1 p"
    "fs1 (butlast p) = Some Dir" by simp_all
  from r(2) have "path_exists fs1 p" by (simp add: empty_dir_def path_exists_def)
  with s r setup_workspace_again [OF r] show ?thesis by simp
qed

lemma wf_used_fs: "wf_fs used_fs"
  by (auto simp: wf_fs_def used_fs_def split: if_splits)

lemma setup_used_fs: "setup_workspace [''evals'', ''vibe_m_fib''] used_fs = Inr fresh_fs"
proof -
  have "mkdir_parents (\<lambda>q. if starts_with [''evals'', ''vibe_m_fib''] q then None else used_fs q)
          [''evals'', ''vibe_m_fib'']
        = Inr ((\<lambda>q. if starts_with [''evals'', ''vibe_m_fib''] q then None else used_fs q)
                ([''evals'', ''vibe_m_fib''] \<mapsto> Dir))"
    by (rule mkdir_parents_fresh) (simp_all add: used_fs_def)
  moreover have "(\<lambda>q. if starts_with [''evals'', ''vibe_m_fib''] q then None else used_fs q)
                ([''evals'', ''vibe_m_fib''] \<mapsto> Dir) = fresh_fs"
  proof
    fix q
    show "((\<lambda>q. if starts_with [''evals'', ''vibe_m_fib''] q then None else used_fs q)
                ([''evals'', ''vibe_m_fib''] \<mapsto> Dir)) q = fresh_fs q"
      by (auto simp: used_fs_def fresh_fs_def starts_with_iff)
  qed
  ultimately have m: "mkdir_parents
      (\<lambda>q. if starts_with [''evals'', ''vibe_m_fib''] q then None else used_fs q)
      [''evals'', ''vibe_m_fib''] = Inr fresh_fs"
    by simp
  have d: "used_fs [''evals'', ''vibe_m_fib''] = Some Dir"
    by (simp add: used_fs_def)
  then have r: "rmtree used_fs [''evals'', ''vibe_m_fib'']
      = Inr (\<lambda>q. if starts_with [''evals'', ''vibe_m_fib''] q then None else used_fs q)"
    by (simp add: rmtree_Inr)
  from d r m show ?thesis
    by (simp add: setup_workspace_def path_exists_def)
qed

lemma used_fs_no_file:
  "\<forall>q. starts_with q [''evals'', ''vibe_m_fib''] \<longrightarrow> used_fs q \<noteq> Some File"
  by (auto simp: used_fs_def split: if_splits)

theorem setup_workspace_idempotent_witness:
  "setup_workspace [''evals'', ''vibe_m_fib''] used_fs = Inr fresh_fs
   \<and> setup_workspace [''evals'', ''vibe_m_fib''] fresh_fs = Inr fresh_fs
   \<and> used_fs [''evals'', ''vibe_m_fib'', ''fibonacci.py''] = Some File
   \<and> fresh_fs [''evals'', ''vibe_m_fib'', ''fibonacci.py''] = None
   \<and> empty_dir fresh_fs [''evals'', ''vibe_m_fib'']"
proof -
  have c: "used_fs [] = Some Dir" by (simp add: used_fs_def)
  have n: "[''evals'', ''vibe_m_fib''] \<noteq> []" by simp
  from setup_workspace_idempotent [OF wf_used_fs c n used_fs_no_file] obtain fs1 where
    a: "setup_workspace [''evals'', ''vibe_m_fib''] used_fs = Inr fs1"
    and b: "empty_dir fs1 [''evals'', ''vibe_m_fib'']"
    and d: "setup_workspace [''evals'', ''vibe_m_fib''] fs1 = Inr fs1"
    by blast
  from a setup_used_fs have e: "fs1 = fresh_fs" by simp
  have f: "used_fs [''evals'', ''vibe_m_fib'', ''fibonacci.py''] = Some File"
    by (simp add: used_fs_def)
  have g: "fresh_fs [''evals'', ''vibe_m_fib'', ''fibonacci.py''] = None"
    by (simp add: fresh_fs_def)
  from setup_used_fs b d f g show ?thesis unfolding e by blast
qed

lemma setup_existing_dir:
  assumes "fs p = Some Dir" and "fs (butlast p) = Some Dir" and "p \<noteq> []"
  shows "setup_workspace p fs = Inr ((\<lambda>q. if starts_with p q then None else fs q)(p \<mapsto> Dir))"
proof -
  define fsr where "fsr = (\<lambda>q. if starts_with p q then None else fs q)"
  from assms(1) have r: "rmtree fs p = Inr fsr" by (simp add: rmtree_Inr fsr_def)
  have "fsr p = None" by (simp add: fsr_def starts_with_refl)
  moreover have "fsr (butlast p) = Some Dir"
    using assms(2,3) by (simp add: fsr_def starts_with_butlast)
  ultimately have "mkdir_parents fsr p = Inr (fsr(p \<mapsto> Dir))"
    by (rule mkdir_parents_fresh)
  with r assms(1) show ?thesis
    by (simp add: setup_workspace_def path_exists_def fsr_def)
qed

text \<open>
  Claim C9. The model names \<^verbatim>\<open>foo.bar\<close> and \<^verbatim>\<open>foobar\<close> differ and give the same
  \<^verbatim>\<open>work_dir\<close> for every agent and prompt: the dot is dropped from the safe name. A run
  with the second model on the file system left by a run with the first removes that
  run's artifact.
\<close>

theorem work_dir_not_injective:
  "''foo.bar'' \<noteq> ''foobar''
   \<and> (\<forall>agent prompt hl.
         work_dir (init_runner agent ''foo.bar'' prompt hl)
           = work_dir (init_runner agent ''foobar'' prompt hl))
   \<and> work_dir (init_runner ''vibe'' ''foo.bar'' [''fib_prompt.md''] True)
       = [''evals'', ''vibe_foobar_fib_prompt'']
   \<and> prior_run_fs (work_dir (init_runner ''vibe'' ''foo.bar'' [''fib_prompt.md''] True)
                     @ [''fibonacci.py'']) = Some File
   \<and> (\<exists>fs. setup_workspace (work_dir (init_runner ''vibe'' ''foobar'' [''fib_prompt.md''] True))
               prior_run_fs = Inr fs
            \<and> fs (work_dir (init_runner ''vibe'' ''foo.bar'' [''fib_prompt.md''] True)
                     @ [''fibonacci.py'']) = None)"
proof -
  have a: "work_dir (init_runner agent ''foo.bar'' prompt hl)
      = work_dir (init_runner agent ''foobar'' prompt hl)" for agent prompt hl
    by (simp add: init_runner_def Let_def py_isalnum_def)
  have b: "work_dir (init_runner ''vibe'' ''foobar'' [''fib_prompt.md''] True)
      = [''evals'', ''vibe_foobar_fib_prompt'']"
    by (simp add: init_runner_def Let_def py_isalnum_def strip_def is_space_def EVALS_DIR_def
        binary_map_def path_stem_def)
  have c: "prior_run_fs ([''evals'', ''vibe_foobar_fib_prompt''] @ [''fibonacci.py'']) = Some File"
    by (simp add: prior_run_fs_def)
  have "setup_workspace [''evals'', ''vibe_foobar_fib_prompt''] prior_run_fs
      = Inr ((\<lambda>q. if starts_with [''evals'', ''vibe_foobar_fib_prompt''] q then None
                   else prior_run_fs q)([''evals'', ''vibe_foobar_fib_prompt''] \<mapsto> Dir))"
    by (rule setup_existing_dir) (simp_all add: prior_run_fs_def)
  then have d: "\<exists>fs. setup_workspace [''evals'', ''vibe_foobar_fib_prompt''] prior_run_fs = Inr fs
      \<and> fs ([''evals'', ''vibe_foobar_fib_prompt''] @ [''fibonacci.py'']) = None"
    by simp
  from a b c d show ?thesis by (simp only: a [symmetric]) simp
qed

section \<open>Properties of the log capture and the run\<close>

lemma stop_server_logger_returns:
  "stop_server_logger wo w =
     Inr (emit ((case log_process (runner w) of
                   None \<Rightarrow> []
                 | Some pid \<Rightarrow> Terminate pid # (case wo of Exited \<Rightarrow> [] | TimedOut \<Rightarrow> [Kill pid]))
                @ (case server_log_file (runner w) of None \<Rightarrow> [] | Some f \<Rightarrow> [CloseLog]))
            (emit [StopLogger] w
               \<lparr>runner := (runner w)
                  \<lparr>log_process := None,
                   server_log_file := map_option (\<lambda>f. Closed) (server_log_file (runner w))\<rparr>\<rparr>))"
  by (cases wo; cases "log_process (runner w)"; cases "server_log_file (runner w)")
    (simp_all add: stop_server_logger_def emit_def proc_wait_def Let_def)

text \<open>
  Claim C8. \<^verbatim>\<open>stop_server_logger\<close> returns in every state and for every behaviour of the
  log process. After it \<^verbatim>\<open>log_process\<close> is \<open>None\<close>; a second call returns as well, adds
  no terminate or kill event and leaves the runner as it is. On a runner on which
  \<^verbatim>\<open>start_server_logger\<close> was never called it does nothing.
\<close>

theorem stop_server_logger_safe:
  "\<exists>w1 w2.
     stop_server_logger wo1 w = Inr w1 \<and> stop_server_logger wo2 w1 = Inr w2
     \<and> log_process (runner w1) = None
     \<and> filter is_termination (trace w1)
         = filter is_termination (trace w)
           @ (case log_process (runner w) of
                None \<Rightarrow> []
              | Some pid \<Rightarrow> Terminate pid # (case wo1 of Exited \<Rightarrow> [] | TimedOut \<Rightarrow> [Kill pid]))
     \<and> filter is_termination (trace w2) = filter is_termination (trace w1)
     \<and> runner w2 = runner w1
     \<and> stop_server_logger wo1 (new_world (init_runner agent model prompt hl) fs)
         = Inr (new_world (init_runner agent model prompt hl) fs\<lparr>trace := [StopLogger]\<rparr>)"
proof -
  obtain w1 where w1: "stop_server_logger wo1 w = Inr w1"
    by (simp add: stop_server_logger_returns)
  obtain w2 where w2: "stop_server_logger wo2 w1 = Inr w2"
    by (simp add: stop_server_logger_returns)
  from w1 have a: "log_process (runner w1) = None"
    by (auto simp: stop_server_logger_returns emit_def)
  from w1 have b: "filter is_termination (trace w1)
         = filter is_termination (trace w)
           @ (case log_process (runner w) of
                None \<Rightarrow> []
              | Some pid \<Rightarrow> Terminate pid # (case wo1 of Exited \<Rightarrow> [] | TimedOut \<Rightarrow> [Kill pid]))"
    by (auto simp: stop_server_logger_returns emit_def is_termination_def
        split: option.splits wait_outcome.splits)
  from w2 a have c: "filter is_termination (trace w2) = filter is_termination (trace w1)"
    by (auto simp: stop_server_logger_returns emit_def is_termination_def split: option.splits)
  from w2 a w1 have d: "runner w2 = runner w1"
    by (auto simp: stop_server_logger_returns emit_def split: option.splits)
  have e: "stop_server_logger wo1 (new_world (init_runner agent model prompt hl) fs)
         = Inr (new_world (init_runner agent model prompt hl) fs\<lparr>trace := [StopLogger]\<rparr>)"
    by (simp add: stop_server_logger_returns emit_def new_world_def init_runner_def Let_def)
  from w1 w2 a b c d e show ?thesis by blast
qed

lemma stream_output_streamed:
  "stream_output (map Streamed lines @ rest) t = stream_output rest (t @ concat lines)"
  by (induction lines arbitrary: t) simp_all

lemma stream_output_all_streamed:
  "stream_output (map Streamed lines) t = (t @ concat lines, None)"
  using stream_output_streamed [of lines "[]" t] by simp

text \<open>
  Claim C1, as amended. When the agent process is launched and every line of its output
  is read, echoed and written and the annotation is written, \<^verbatim>\<open>_run_process\<close> returns
  without raising and the transcript is the output followed by one line: the success
  marker for exit code 0, the error line with the code otherwise; the transcript is not
  empty. When the process cannot be launched, the exception of \<^verbatim>\<open>Popen\<close> leaves
  \<^verbatim>\<open>_run_process\<close> and the transcript stays empty. When reading, echoing or writing a
  line raises, that exception leaves \<^verbatim>\<open>_run_process\<close> as well, whatever the exit code,
  and the transcript holds what was written until then, with no annotation.
\<close>

theorem run_process_outcomes:
  "run_process (Launched (map Streamed lines) 0 None)
     = (Some (concat lines @ ''\<newline>[SUCCESS] Process exited cleanly.\<newline>''), None)
   \<and> run_process (Launched (map Streamed lines) code None)
     = (Some (concat lines
          @ (if code = 0 then ''\<newline>[SUCCESS] Process exited cleanly.\<newline>''
             else ''\<newline>[ERROR] Process exited with code '' @ str_int code @ ''\<newline>'')),
        None)
   \<and> fst (run_process (Launched (map Streamed lines) code None)) \<noteq> Some []
   \<and> run_process (LaunchFails e) = (Some [], Some e)
   \<and> run_process (Launched (map Streamed lines @ ReadRaises e # rest) code ann)
     = (Some (concat lines), Some e)
   \<and> run_process (Launched (map Streamed lines @ EchoRaises l e # rest) code ann)
     = (Some (concat lines), Some e)
   \<and> run_process (Launched (map Streamed lines @ LogRaises l e written # rest) code ann)
     = (Some (concat lines @ written), Some e)
   \<and> run_process (Launched (map Streamed lines) code (Some (e, written)))
     = (Some (concat lines @ written), Some e)
   \<and> run_process (TranscriptOpenFails e) = (None, Some e)"
  by (simp add: run_process_def annotation_def stream_output_streamed
      stream_output_all_streamed)

lemma run_process_example:
  "run_process (Launched [Streamed ''out\<newline>'', Streamed ''done\<newline>''] (- 15) None)
     = (Some ''out\<newline>done\<newline>\<newline>[ERROR] Process exited with code -15\<newline>'', None)"
  by (simp add: run_process_def annotation_def str_int_def digit_char_def)

theorem run_process_launch_counterexample:
  "snd (run_process (LaunchFails FileNotFoundError)) = Some FileNotFoundError
   \<and> fst (run_process (LaunchFails FileNotFoundError)) = Some []
   \<and> run_process (Launched [ReadRaises UnicodeDecodeError] 0 None)
       = (Some [], Some UnicodeDecodeError)"
  by (simp add: run_process_def)

lemma run_invoked:
  assumes "run en (new_world r fs) = (w', res)" and "ExecuteAgent \<in> set (trace w')"
  shows "\<exists>evs. trace w' = start_events (start_result en)
                  @ [ExecuteAgent, AgentDone (agent_result en), StopLogger] @ evs
           \<and> set evs \<subseteq> {Terminate pid | pid. True} \<union> {Kill pid | pid. True} \<union> {CloseLog, PostRun}
           \<and> (case start_result en of Spawned pid \<Rightarrow> Terminate pid \<in> set evs | _ \<Rightarrow> True)
           \<and> (case agent_result en of
                 AgentRaises e \<Rightarrow> res = Some e \<and> PostRun \<notin> set evs
               | AgentReturns \<Rightarrow> res = None \<and> PostRun \<in> set evs)"
  using assms
  by (cases "start_result en"; cases "agent_result en"; cases "wait_result en";
      cases "log_process r"; cases "server_log_file r")
    (auto simp: run_def new_world_def start_server_logger_def stop_server_logger_returns
      emit_def start_events_def Let_def split: sum.splits option.splits)


lemma precedes_set: "precedes a b xs \<Longrightarrow> a \<in> set xs \<and> b \<in> set xs"
  by (induction xs) auto

text \<open>
  Claim C6. In every execution of \<^verbatim>\<open>run\<close> that reaches the agent,
  \<^verbatim>\<open>start_server_logger\<close> is called before \<^verbatim>\<open>execute_agent\<close> and \<^verbatim>\<open>stop_server_logger\<close>
  after \<^verbatim>\<open>execute_agent\<close> has returned or raised, never the other way round. When the log
  process was spawned, the spawn comes before the agent and its termination after the
  agent is done. When \<^verbatim>\<open>execute_agent\<close> raises, the capture is stopped and then the
  exception leaves \<^verbatim>\<open>run\<close>, with nothing of the rest of \<^verbatim>\<open>run\<close> executed.
\<close>

theorem logger_brackets_agent:
  assumes "run en (new_world r fs) = (w', res)" and "ExecuteAgent \<in> set (trace w')"
  shows "precedes StartLogger ExecuteAgent (trace w')
     \<and> \<not> precedes ExecuteAgent StartLogger (trace w')
     \<and> precedes (AgentDone (agent_result en)) StopLogger (trace w')
     \<and> \<not> precedes StopLogger (AgentDone (agent_result en)) (trace w')
     \<and> (case start_result en of
           Spawned pid \<Rightarrow>
             precedes (Spawn pid) ExecuteAgent (trace w')
             \<and> precedes (AgentDone (agent_result en)) (Terminate pid) (trace w')
             \<and> \<not> precedes (Terminate pid) (AgentDone (agent_result en)) (trace w')
         | _ \<Rightarrow> True)
     \<and> (case agent_result en of
           AgentRaises e \<Rightarrow> res = Some e \<and> PostRun \<notin> set (trace w')
         | AgentReturns \<Rightarrow> res = None \<and> precedes StopLogger PostRun (trace w'))"
proof -
  from run_invoked [OF assms] obtain evs where
    tr: "trace w' = start_events (start_result en)
                  @ [ExecuteAgent, AgentDone (agent_result en), StopLogger] @ evs"
    and sub: "set evs \<subseteq> {Terminate pid | pid. True} \<union> {Kill pid | pid. True} \<union> {CloseLog, PostRun}"
    and tm: "(case start_result en of Spawned pid \<Rightarrow> Terminate pid \<in> set evs | _ \<Rightarrow> True)"
    and rs: "(case agent_result en of
                 AgentRaises e \<Rightarrow> res = Some e \<and> PostRun \<notin> set evs
               | AgentReturns \<Rightarrow> res = None \<and> PostRun \<in> set evs)"
    by blast
  from sub have no: "StartLogger \<notin> set evs" "ExecuteAgent \<notin> set evs" "StopLogger \<notin> set evs"
    "AgentDone (agent_result en) \<notin> set evs"
    by auto
  have np: "\<not> precedes a b evs" if "a \<notin> set evs \<or> b \<notin> set evs" for a b
    using that precedes_set [of a b evs] by blast
  show ?thesis
    using tr tm rs no
    by (cases "start_result en"; cases "agent_result en")
      (simp_all add: start_events_def np)
qed

lemma example_work_dir: "work_dir example_runner = [''evals'', ''vibe_foobar_fib_prompt'']"
  by (simp add: example_runner_def init_runner_def Let_def py_isalnum_def strip_def is_space_def
      EVALS_DIR_def binary_map_def path_stem_def)

lemma setup_prior_run:
  "setup_workspace [''evals'', ''vibe_foobar_fib_prompt''] prior_run_fs
      = Inr ((\<lambda>q. if starts_with [''evals'', ''vibe_foobar_fib_prompt''] q then None
                   else prior_run_fs q)([''evals'', ''vibe_foobar_fib_prompt''] \<mapsto> Dir))"
  by (rule setup_existing_dir) (simp_all add: prior_run_fs_def)

lemma example_run:
  "trace (fst (run example_env (new_world example_runner prior_run_fs)))
     = [StartLogger, OpenLog, Spawn 7, ExecuteAgent, AgentDone (AgentRaises FileNotFoundError),
        StopLogger, Terminate 7, Kill 7, CloseLog]
   \<and> snd (run example_env (new_world example_runner prior_run_fs)) = Some FileNotFoundError"
  by (simp add: run_def new_world_def example_work_dir setup_prior_run example_env_def
      start_server_logger_def stop_server_logger_returns emit_def Let_def)

theorem logger_brackets_agent_witness:
  "trace (fst (run example_env (new_world example_runner prior_run_fs)))
     = [StartLogger, OpenLog, Spawn 7, ExecuteAgent, AgentDone (AgentRaises FileNotFoundError),
        StopLogger, Terminate 7, Kill 7, CloseLog]
   \<and> snd (run example_env (new_world example_runner prior_run_fs)) = Some FileNotFoundError
   \<and> precedes (Spawn 7) ExecuteAgent
        (trace (fst (run example_env (new_world example_runner prior_run_fs))))
   \<and> precedes (AgentDone (AgentRaises FileNotFoundError)) (Terminate 7)
        (trace (fst (run example_env (new_world example_runner prior_run_fs))))
   \<and> precedes (AgentDone (AgentRaises FileNotFoundError)) StopLogger
        (trace (fst (run example_env (new_world example_runner prior_run_fs))))"
proof -
  have h1: "run example_env (new_world example_runner prior_run_fs)
      = (fst (run example_env (new_world example_runner prior_run_fs)),
         snd (run example_env (new_world example_runner prior_run_fs)))"
    by simp
  have h2: "ExecuteAgent \<in> set (trace (fst (run example_env (new_world example_runner prior_run_fs))))"
    by (simp add: example_run)
  have s: "start_result example_env = Spawned 7"
    and a: "agent_result example_env = AgentRaises FileNotFoundError"
    by (simp_all add: example_env_def)
  from logger_brackets_agent [OF h1 h2] have
    "precedes (Spawn 7) ExecuteAgent
        (trace (fst (run example_env (new_world example_runner prior_run_fs))))
     \<and> precedes (AgentDone (AgentRaises FileNotFoundError)) (Terminate 7)
        (trace (fst (run example_env (new_world example_runner prior_run_fs))))
     \<and> precedes (AgentDone (AgentRaises FileNotFoundError)) StopLogger
        (trace (fst (run example_env (new_world example_runner prior_run_fs))))"
    unfolding s a by simp
  with example_run show ?thesis by blast
qed

end
